theory Spec2Isabelle
  imports Complex_Main "HOL-Library.Sublist"
begin

section \<open>Python strings: indices, slices, search and trimming\<close>

text \<open>
  A Python \<open>str\<close> is modelled as a \<open>string\<close>, one \<open>char\<close> per code point (code
  points below 256). Python integers are \<open>int\<close>. The cursor of the chunker can become
  negative, so slices and searches take \<open>int\<close> bounds and follow CPython's index
  adjustment: a negative bound counts from the end of the text, and every bound is
  clamped to the text.
\<close>

definition adjust_index :: "nat \<Rightarrow> int \<Rightarrow> nat" where
  "adjust_index n i = (if i < 0 then nat (max 0 (i + int n)) else min (nat i) n)"

text \<open>\<open>xs[i:j]\<close>\<close>

definition py_slice :: "'a list \<Rightarrow> int \<Rightarrow> int \<Rightarrow> 'a list" where
  "py_slice xs i j =
     (let a = adjust_index (length xs) i; b = adjust_index (length xs) j
      in take (b - a) (drop a xs))"

text \<open>\<open>xs.rfind(c, i, j)\<close>: the highest index in the adjusted range holding \<open>c\<close>, or \<open>-1\<close>.\<close>

definition py_rfind :: "'a list \<Rightarrow> 'a \<Rightarrow> int \<Rightarrow> int \<Rightarrow> int" where
  "py_rfind xs c i j =
     (let a = adjust_index (length xs) i; b = adjust_index (length xs) j
      in case filter (\<lambda>k. xs ! k = c) (rev [a..<b]) of
           [] \<Rightarrow> - 1
         | k # _ \<Rightarrow> int k)"

text \<open>
  \<open>str.isspace\<close> on one character: the code points below 256 that Python counts as
  whitespace (tab to carriage return, the four separators 28 to 31, space, NEL and the
  no-break space).
\<close>

definition isspace :: "char \<Rightarrow> bool" where
  "isspace c =
     (let n = (of_char c :: nat)
      in (9 \<le> n \<and> n \<le> 13) \<or> (28 \<le> n \<and> n \<le> 32) \<or> n = 133 \<or> n = 160)"

text \<open>\<open>s.strip()\<close>\<close>

definition py_strip :: "string \<Rightarrow> string" where
  "py_strip s = rev (dropWhile isspace (rev (dropWhile isspace s)))"

section \<open>TextChunker (01\_az\_rag\_poc/src/embedding\_pipeline.py)\<close>

text \<open>
  The object keeps \<open>chunk_size\<close> and \<open>chunk_overlap\<close> as given. Its third attribute,
  the tokenizer encoding, is only read by \<open>count_tokens\<close> and is left out.
\<close>

record TextChunker =
  chunk_size :: int
  chunk_overlap :: int

datatype config_error = ConfigurationError

text \<open>
  \<open>__init__\<close> stores its two arguments. It has no check and no \<open>raise\<close>, so the
  result is always the right injection.
\<close>

definition init :: "int \<Rightarrow> int \<Rightarrow> config_error + TextChunker" where
  "init csize coverlap = Inr \<lparr>chunk_size = csize, chunk_overlap = coverlap\<rparr>"

text \<open>
  The end of the chunk that starts at \<open>start\<close>: \<open>start + chunk_size\<close>, moved back to just
  after the last period or newline of the window when the window ends inside the text
  and one of the two searches returns an index above \<open>start\<close>.
\<close>

definition chunk_end :: "TextChunker \<Rightarrow> string \<Rightarrow> int \<Rightarrow> int" where
  "chunk_end self text start =
     (let end0 = start + chunk_size self
      in if end0 < int (length text)
         then (let last_period = py_rfind text (CHR ''.'') start end0;
                   last_newline = py_rfind text (CHR 0x0A) start end0
               in if last_period > start \<or> last_newline > start
                  then max last_period last_newline + 1
                  else end0)
         else end0)"

text \<open>\<open>if chunk: chunks.append(chunk)\<close>\<close>

definition append_chunk :: "string list \<Rightarrow> string \<Rightarrow> string list" where
  "append_chunk chunks chunk = (if chunk \<noteq> [] then chunks @ [chunk] else chunks)"

text \<open>
  The \<open>while start < len(text)\<close> loop. The first argument bounds the number of times
  the loop body may run: the result is \<open>None\<close> when the body would have to run once
  more, so \<open>split_loop n\<close> returns \<open>Some\<close> exactly when the loop leaves within \<open>n\<close>
  iterations.
\<close>

fun split_loop :: "nat \<Rightarrow> TextChunker \<Rightarrow> string \<Rightarrow> int \<Rightarrow> string list \<Rightarrow> string list option" where
  "split_loop 0 self text start chunks =
     (if start < int (length text) then None else Some chunks)"
| "split_loop (Suc n) self text start chunks =
     (if start < int (length text)
      then (let end1 = chunk_end self text start;
                chunk = py_strip (py_slice text start end1);
                chunks' = append_chunk chunks chunk;
                start' = end1 - chunk_overlap self
            in if start' \<ge> int (length text) then Some chunks'
               else split_loop n self text start' chunks')
      else Some chunks)"

text \<open>\<open>split_text\<close>, with the bound on the loop's iterations as first argument.\<close>

definition split_text :: "nat \<Rightarrow> TextChunker \<Rightarrow> string \<Rightarrow> string list option" where
  "split_text n self text =
     (if int (length text) \<le> chunk_size self then Some [text]
      else split_loop n self text 0 [])"

text \<open>
  The bound of the specification, \<open>ceil(a / b)\<close>, on integers.
\<close>

definition ceil_div :: "int \<Rightarrow> int \<Rightarrow> int" where
  "ceil_div a b = - ((- a) div b)"

section \<open>Documents and their metadata\<close>

text \<open>
  A metadata dictionary maps string keys to strings (\<open>source_file\<close>) or integers
  (\<open>page\<close>, \<open>chunk\<close>, \<open>total_chunks\<close>). The document of the chunker and LangChain's
  \<open>Document\<close> always hold a text and a metadata dictionary: they are records.
\<close>

datatype meta_val = MStr string | MInt int

record with_metadata =
  metadata :: "string \<rightharpoonup> meta_val"

record document = with_metadata +
  page_content :: string

text \<open>
  A Python float: a finite value other than the negative zero, given by its exact value
  (every finite float is a rational number), the negative zero, the two infinities, or
  not-a-number.
\<close>

datatype py_float = Finite rat | NegZero | PosInf | NegInf | NaN

text \<open>
  The values an entry of a search result can hold: \<open>None\<close>, a float, a string or a
  metadata dictionary. A search result is a dictionary from keys to such values; any of
  its keys may be absent.
\<close>

datatype pyval = PNone | PFloat py_float | PStr string | PDict "string \<rightharpoonup> meta_val"

datatype py_error = KeyError string | AttributeError | TypeError | ValueError

text \<open>\<open>d.get(key, default)\<close>\<close>

definition dict_get :: "('k \<rightharpoonup> 'v) \<Rightarrow> 'k \<Rightarrow> 'v \<Rightarrow> 'v" where
  "dict_get d key dflt = (case d key of None \<Rightarrow> dflt | Some v \<Rightarrow> v)"

section \<open>chunk\_documents\<close>

text \<open>
  The inner loop \<open>for chunk_idx, chunk in enumerate(chunks)\<close>: one output document per
  chunk, whose metadata is the parent's with \<open>chunk\<close> and \<open>total_chunks\<close> set.
\<close>

fun emit_chunks :: "(string \<rightharpoonup> meta_val) \<Rightarrow> int \<Rightarrow> int \<Rightarrow> string list \<Rightarrow> document list \<Rightarrow> document list" where
  "emit_chunks md total_chunks chunk_idx [] chunked_docs = chunked_docs"
| "emit_chunks md total_chunks chunk_idx (chunk # rest) chunked_docs =
     emit_chunks md total_chunks (chunk_idx + 1) rest
       (chunked_docs @
          [\<lparr>metadata = md(''chunk'' \<mapsto> MInt chunk_idx, ''total_chunks'' \<mapsto> MInt total_chunks),
            page_content = chunk\<rparr>])"

text \<open>
  The outer loop \<open>for doc in documents\<close>. A call of \<open>split_text\<close> that does not return
  within the bound leaves the whole call without a result.
\<close>

fun chunk_documents_loop :: "nat \<Rightarrow> TextChunker \<Rightarrow> document list \<Rightarrow> document list \<Rightarrow> document list option" where
  "chunk_documents_loop n self [] chunked_docs = Some chunked_docs"
| "chunk_documents_loop n self (doc # rest) chunked_docs =
     (case split_text n self (page_content doc) of
        None \<Rightarrow> None
      | Some chunks \<Rightarrow>
          chunk_documents_loop n self rest
            (emit_chunks (metadata doc) (int (length chunks)) 0 chunks chunked_docs))"

definition chunk_documents :: "nat \<Rightarrow> TextChunker \<Rightarrow> document list \<Rightarrow> document list option" where
  "chunk_documents n self documents = chunk_documents_loop n self documents []"

text \<open>
  What the specification says of the chunks of one document: the chunk at index \<open>i\<close> of
  the \<open>n\<close> chunks produced carries \<open>chunk = i\<close>, \<open>total_chunks = n\<close> and the metadata
  of its parent.
\<close>

definition chunk_doc :: "(string \<rightharpoonup> meta_val) \<Rightarrow> int \<Rightarrow> int \<Rightarrow> string \<Rightarrow> document" where
  "chunk_doc md total_chunks idx chunk =
     \<lparr>metadata = md(''chunk'' \<mapsto> MInt idx, ''total_chunks'' \<mapsto> MInt total_chunks),
       page_content = chunk\<rparr>"

definition expected_chunks :: "document \<Rightarrow> string list \<Rightarrow> document list" where
  "expected_chunks doc cs =
     map (\<lambda>i. chunk_doc (metadata doc) (int (length cs)) (int i) (cs ! i)) [0..<length cs]"

section \<open>Rendering values into strings\<close>

definition digit_char :: "nat \<Rightarrow> char" where
  "digit_char d = ''0123456789'' ! d"

fun string_of_nat :: "nat \<Rightarrow> string" where
  "string_of_nat n =
     (if n < 10 then [digit_char n]
      else string_of_nat (n div 10) @ [digit_char (n mod 10)])"

declare string_of_nat.simps [simp del]

text \<open>\<open>str(i)\<close> for an integer\<close>

definition string_of_int :: "int \<Rightarrow> string" where
  "string_of_int i =
     (if i < 0 then CHR ''-'' # string_of_nat (nat (- i)) else string_of_nat (nat i))"

text \<open>\<open>str(v)\<close> for a metadata value, as an f-string renders \<open>{v}\<close>\<close>

fun py_str :: "meta_val \<Rightarrow> string" where
  "py_str (MStr s) = s"
| "py_str (MInt i) = string_of_int i"

text \<open>
  \<open>format(x, ".3f")\<close> for a float. A finite value is rounded to three decimals, ties to
  the even neighbour, and printed with its sign, its integer part and exactly three
  decimals; the negative zero keeps its sign; the infinities and not-a-number are
  printed by name, without decimals.
\<close>

definition round_half_even :: "rat \<Rightarrow> int" where
  "round_half_even x =
     (let q = \<lfloor>x\<rfloor>; r = x - of_int q
      in if r < 1 / 2 then q
         else if r > 1 / 2 then q + 1
         else if even q then q else q + 1)"

fun fmt_3f :: "py_float \<Rightarrow> string" where
  "fmt_3f (Finite x) =
     (let n = nat (round_half_even (\<bar>x\<bar> * 1000))
      in (if x < 0 then [CHR ''-''] else []) @ string_of_nat (n div 1000) @ [CHR ''.''] @
         [digit_char (n div 100 mod 10), digit_char (n div 10 mod 10), digit_char (n mod 10)])"
| "fmt_3f NegZero = ''-0.000''"
| "fmt_3f PosInf = ''inf''"
| "fmt_3f NegInf = ''-inf''"
| "fmt_3f NaN = ''nan''"

text \<open>
  \<open>format(v, ".3f")\<close> for any value, as the f-string renders \<open>{score:.3f}\<close>: only a float
  accepts the format; \<open>None\<close> and a dictionary raise \<open>TypeError\<close>, a string raises
  \<open>ValueError\<close>.
\<close>

fun format_3f :: "pyval \<Rightarrow> py_error + string" where
  "format_3f (PFloat x) = Inr (fmt_3f x)"
| "format_3f PNone = Inl TypeError"
| "format_3f (PStr s) = Inl ValueError"
| "format_3f (PDict d) = Inl TypeError"

text \<open>
  \<open>str(v)\<close> for any value, as the f-string renders \<open>{v}\<close>. The text Python prints for a
  float or for a dictionary is not modelled: it is the parameter \<open>render\<close>.
\<close>

fun py_str_val :: "(pyval \<Rightarrow> string) \<Rightarrow> pyval \<Rightarrow> string" where
  "py_str_val render PNone = ''None''"
| "py_str_val render (PStr s) = s"
| "py_str_val render (PFloat x) = render (PFloat x)"
| "py_str_val render (PDict d) = render (PDict d)"

text \<open>\<open>sep.join(parts)\<close>\<close>

fun py_join :: "string \<Rightarrow> string list \<Rightarrow> string" where
  "py_join sep [] = []"
| "py_join sep [x] = x"
| "py_join sep (x # y # rest) = x @ sep @ py_join sep (y # rest)"

section \<open>HybridRetriever.format\_context (01\_az\_rag\_poc/src/retriever.py)\<close>

definition no_documents :: string where
  "no_documents = ''No relevant documents found.''"

text \<open>
  One iteration of the loop: the three reads and the f-string appended for the document
  at position \<open>idx\<close>. \<open>doc["metadata"]\<close> raises \<open>KeyError\<close> when the key is absent, and
  \<open>.get\<close> raises \<open>AttributeError\<close> on a value that is not a dictionary. The f-string
  formats its fields from left to right, so the score is formatted before
  \<open>doc['content']\<close> is read.
\<close>

definition context_block :: "(pyval \<Rightarrow> string) \<Rightarrow> int \<Rightarrow> (string \<rightharpoonup> pyval) \<Rightarrow> py_error + string" where
  "context_block render idx doc =
     (case doc ''metadata'' of
        None \<Rightarrow> Inl (KeyError ''metadata'')
      | Some (PDict md) \<Rightarrow>
          (let source = dict_get md ''source_file'' (MStr ''unknown'');
               page = dict_get md ''page'' (MStr ''?'');
               sc = dict_get doc ''score'' (PFloat (Finite 0))
           in case format_3f sc of
                Inl err \<Rightarrow> Inl err
              | Inr shown \<Rightarrow>
                  (case doc ''content'' of
                     None \<Rightarrow> Inl (KeyError ''content'')
                   | Some c \<Rightarrow>
                       Inr (''[Document '' @ string_of_int idx @ ''] (Source: '' @
                            py_str source @ '', Page: '' @ py_str page @ '', Score: '' @
                            shown @ '')'' @ [CHR 0x0A] @ py_str_val render c @ [CHR 0x0A])))
      | Some other \<Rightarrow> Inl AttributeError)"

text \<open>
  \<open>for idx, doc in enumerate(documents, 1): context_parts.append(...)\<close>; an exception
  leaves the loop and the function.
\<close>

fun format_context_loop ::
  "(pyval \<Rightarrow> string) \<Rightarrow> int \<Rightarrow> (string \<rightharpoonup> pyval) list \<Rightarrow> string list \<Rightarrow> py_error + string list" where
  "format_context_loop render idx [] context_parts = Inr context_parts"
| "format_context_loop render idx (doc # rest) context_parts =
     (case context_block render idx doc of
        Inl err \<Rightarrow> Inl err
      | Inr block \<Rightarrow> format_context_loop render (idx + 1) rest (context_parts @ [block]))"

definition format_context :: "(pyval \<Rightarrow> string) \<Rightarrow> (string \<rightharpoonup> pyval) list \<Rightarrow> py_error + string" where
  "format_context render documents =
     (if documents = [] then Inr no_documents
      else case format_context_loop render 1 documents [] of
             Inl err \<Rightarrow> Inl err
           | Inr context_parts \<Rightarrow> Inr (py_join [CHR 0x0A] context_parts))"

text \<open>
  The search results on which no step of \<open>format_context\<close> raises: the metadata entry is
  a dictionary, the content entry is present, and the score is absent or a float.
\<close>

definition formattable :: "(string \<rightharpoonup> pyval) \<Rightarrow> bool" where
  "formattable doc =
     ((case doc ''metadata'' of Some (PDict md) \<Rightarrow> True | other \<Rightarrow> False)
      \<and> (case doc ''content'' of Some c \<Rightarrow> True | None \<Rightarrow> False)
      \<and> (case doc ''score'' of None \<Rightarrow> True | Some (PFloat x) \<Rightarrow> True | Some other \<Rightarrow> False))"

text \<open>
  The block of a search result whose reads all succeed, as a function of what was read:
  the metadata dictionary, the score and the rendered content.
\<close>

definition block_text :: "int \<Rightarrow> (string \<rightharpoonup> meta_val) \<Rightarrow> py_float \<Rightarrow> string \<Rightarrow> string" where
  "block_text idx md x body =
     ''[Document '' @ string_of_int idx @ ''] (Source: '' @
     py_str (dict_get md ''source_file'' (MStr ''unknown'')) @ '', Page: '' @
     py_str (dict_get md ''page'' (MStr ''?'')) @ '', Score: '' @
     fmt_3f x @ '')'' @ [CHR 0x0A] @ body @ [CHR 0x0A]"

section \<open>Retriever (01\_lc\_rag\_poc/src/retriever.py)\<close>

text \<open>\<open>k or default\<close> for an optional integer: \<open>None\<close> and \<open>0\<close> are both false.\<close>

definition k_or :: "int option \<Rightarrow> int \<Rightarrow> int" where
  "k_or k dflt = (case k of None \<Rightarrow> dflt | Some v \<Rightarrow> if v = 0 then dflt else v)"

text \<open>
  The vector store's \<open>similarity_search_with_score\<close> is a parameter: any function from
  a query and a count to a list of (document, score) pairs. Scores are compared with
  the order of their type.
\<close>

definition retrieve_with_scores ::
  "(string \<Rightarrow> int \<Rightarrow> ('d \<times> 's) list) \<Rightarrow> int \<Rightarrow> string \<Rightarrow> int option \<Rightarrow> ('d \<times> 's) list" where
  "retrieve_with_scores similarity_search_with_score top_k_results query k =
     similarity_search_with_score query (k_or k top_k_results)"

definition retrieve_with_threshold ::
  "(string \<Rightarrow> int \<Rightarrow> ('d \<times> 's::ord) list) \<Rightarrow> int \<Rightarrow> string \<Rightarrow> int option \<Rightarrow> 's \<Rightarrow> 'd list" where
  "retrieve_with_threshold similarity_search_with_score top_k_results query k score_threshold =
     (let k' = k_or k top_k_results;
          results_with_scores =
            retrieve_with_scores similarity_search_with_score top_k_results query (Some k')
      in [doc. (doc, sc) \<leftarrow> results_with_scores, sc \<ge> score_threshold])"

text \<open>The string built for the document at position \<open>i\<close>.\<close>

definition context_part :: "int \<Rightarrow> document \<Rightarrow> string" where
  "context_part i doc =
     (let source = dict_get (metadata doc) ''source_file'' (MStr ''unknown'');
          page = dict_get (metadata doc) ''page'' (MStr ''N/A'');
          content = py_strip (page_content doc)
      in ''[Source '' @ string_of_int i @ '': '' @ py_str source @ '', page '' @
         py_str page @ '']'' @ [CHR 0x0A] @ content)"

fun format_retrieved_context_loop :: "int \<Rightarrow> document list \<Rightarrow> string list \<Rightarrow> string list" where
  "format_retrieved_context_loop i [] context_parts = context_parts"
| "format_retrieved_context_loop i (doc # rest) context_parts =
     format_retrieved_context_loop (i + 1) rest (context_parts @ [context_part i doc])"

definition format_retrieved_context :: "document list \<Rightarrow> string" where
  "format_retrieved_context documents =
     (if documents = [] then no_documents
      else py_join ([CHR 0x0A, CHR 0x0A] @ ''---'' @ [CHR 0x0A, CHR 0x0A])
             (format_retrieved_context_loop 1 documents []))"

section \<open>The constructor and the short-text path\<close>

text \<open>
  C4, as stated: a \<open>TextChunker\<close> built with \<open>chunk_size <= 0\<close>, \<open>chunk_overlap < 0\<close> or
  \<open>chunk_overlap >= chunk_size\<close> raises a configuration error. The constructor has no
  check: each of the three invalid configurations below is accepted and stored.
\<close>

theorem init_accepts_invalid_configuration:
  "init 0 200 = Inr \<lparr>chunk_size = 0, chunk_overlap = 200\<rparr>
   \<and> init 1000 (- 1) = Inr \<lparr>chunk_size = 1000, chunk_overlap = - 1\<rparr>
   \<and> init 5 5 = Inr \<lparr>chunk_size = 5, chunk_overlap = 5\<rparr>
   \<and> init 0 200 \<noteq> Inl ConfigurationError"
  by (simp add: init_def)

text \<open>
  C4, amended: constructing a \<open>TextChunker\<close> never raises a configuration error. For
  every pair of integers, valid or not, the constructor returns an object that holds
  \<open>chunk_size\<close> and \<open>chunk_overlap\<close> exactly as given.
\<close>

theorem init_never_raises:
  "\<exists>self. init csize coverlap = Inr self
      \<and> chunk_size self = csize \<and> chunk_overlap self = coverlap"
  by (simp add: init_def)

text \<open>
  C5: for the empty text, \<open>split_text\<close> should return the empty sequence. With the
  default configuration the length test \<open>len(text) <= chunk_size\<close> holds, and the early
  return gives the one-element list that holds the empty string, whatever the bound
  on the loop.
\<close>

theorem split_text_empty_text:
  "split_text n \<lparr>chunk_size = 1000, chunk_overlap = 200\<rparr> [] = Some [[]]"
  by (simp add: split_text_def)

text \<open>
  C6: a document whose text is all whitespace should yield no chunk. A text of three
  spaces is shorter than \<open>chunk_size\<close>, so \<open>split_text\<close> returns it untrimmed and
  \<open>chunk_documents\<close> emits one chunk whose content is empty after trimming.
\<close>

theorem chunk_documents_whitespace_document:
  "map_option (map page_content)
     (chunk_documents n \<lparr>chunk_size = 1000, chunk_overlap = 200\<rparr>
        [\<lparr>metadata = Map.empty, page_content = ''   ''\<rparr>]) = Some [''   '']
   \<and> py_strip ''   '' = []"
  by (simp add: chunk_documents_def split_text_def py_strip_def isspace_def)

section \<open>Threshold filtering\<close>

lemma k_or_idem: "k_or (Some (k_or k d)) d = k_or k d"
  by (simp add: k_or_def split: option.splits)

lemma threshold_comprehension:
  "[doc. (doc, sc) \<leftarrow> ms, sc \<ge> t] = map fst (filter (\<lambda>m. snd m \<ge> t) ms)"
  by (induction ms) auto

text \<open>
  C3: whatever list of scored matches the search returns, \<open>retrieve_with_threshold\<close>
  returns the documents of exactly the matches whose score is at least the threshold,
  in the order of the input: the result is the input filtered, so it is a subsequence
  of the input's documents, and it is the empty list, not an error, when no match
  qualifies.
\<close>

theorem retrieve_with_threshold_filters:
  fixes search :: "string \<Rightarrow> int \<Rightarrow> ('d \<times> 's::ord) list"
  assumes "search query (k_or k top_k_results) = matches"
  shows "retrieve_with_threshold search top_k_results query k t
           = map fst (filter (\<lambda>m. snd m \<ge> t) matches)
         \<and> subseq (retrieve_with_threshold search top_k_results query k t) (map fst matches)
         \<and> ((\<forall>m \<in> set matches. \<not> snd m \<ge> t)
              \<longrightarrow> retrieve_with_threshold search top_k_results query k t = [])"
proof -
  have eq: "retrieve_with_threshold search top_k_results query k t
              = map fst (filter (\<lambda>m. snd m \<ge> t) matches)"
    using assms
    by (simp add: retrieve_with_threshold_def retrieve_with_scores_def k_or_idem
        threshold_comprehension)
  have sub: "subseq (map fst (filter (\<lambda>m. snd m \<ge> t) matches)) (map fst matches)"
    by (simp add: subseq_map)
  have none: "(\<forall>m \<in> set matches. \<not> snd m \<ge> t) \<longrightarrow> filter (\<lambda>m. snd m \<ge> t) matches = []"
    by (simp add: filter_empty_conv)
  show ?thesis using eq sub none by simp
qed

theorem retrieve_with_threshold_filters_witness:
  "retrieve_with_threshold (\<lambda>q k. [(''a'', 9 / 10), (''b'', 1 / 2), (''c'', 2 / 10 :: rat)])
     4 ''q'' None (6 / 10) = [''a'']
   \<and> retrieve_with_threshold (\<lambda>q k. [(''a'', 9 / 10), (''b'', 1 / 2), (''c'', 2 / 10 :: rat)])
     4 ''q'' (Some 5) 1 = []"
  using retrieve_with_threshold_filters
          [of "\<lambda>q k. [(''a'', 9 / 10), (''b'', 1 / 2), (''c'', 2 / 10 :: rat)]"
              "''q''" None 4 _ "6 / 10"]
        retrieve_with_threshold_filters
          [of "\<lambda>q k. [(''a'', 9 / 10), (''b'', 1 / 2), (''c'', 2 / 10 :: rat)]"
              "''q''" "Some 5" 4 _ 1]
  by simp

section \<open>The context string\<close>

text \<open>
  C7: for the empty list of documents, both formatters return the fixed sentence
  "No relevant documents found.", which is not the empty string, and neither raises.
\<close>

theorem format_context_empty:
  "format_context render [] = Inr ''No relevant documents found.''
   \<and> format_retrieved_context [] = ''No relevant documents found.''
   \<and> format_context render [] \<noteq> Inr [] \<and> format_retrieved_context [] \<noteq> []"
  by (simp add: format_context_def format_retrieved_context_def no_documents_def)

section \<open>Termination of split\_text\<close>

lemma ceil_div_ceiling: "ceil_div a b = \<lceil>real_of_int a / real_of_int b\<rceil>"
  by (simp add: ceil_div_def ceiling_divide_eq_div)

lemma ceil_div_covers:
  assumes "0 < b"
  shows "a \<le> ceil_div a b * b"
proof -
  have "(- a) div b * b + (- a) mod b = - a" by simp
  moreover have "0 \<le> (- a) mod b" using assms by simp
  ultimately have "(- a) div b * b \<le> - a" by linarith
  then show ?thesis by (simp add: ceil_div_def)
qed

lemma ceil_div_nonneg:
  assumes "0 < b" "0 \<le> a"
  shows "0 \<le> ceil_div a b"
proof -
  have "(- a) div b \<le> 0 div b"
    using assms by (intro zdiv_mono1) simp_all
  then show ?thesis by (simp add: ceil_div_def)
qed

lemma adjust_index_le: "adjust_index n i \<le> n"
  by (auto simp: adjust_index_def)

lemma py_rfind_cases:
  "py_rfind xs c i j = - 1 \<or> (\<exists>k. py_rfind xs c i j = int k \<and> k < length xs \<and> xs ! k = c)"
proof (cases "filter (\<lambda>k. xs ! k = c)
                (rev [adjust_index (length xs) i..<adjust_index (length xs) j])")
  case Nil
  then show ?thesis by (simp add: py_rfind_def)
next
  case (Cons k ks)
  then have "k \<in> set (filter (\<lambda>k. xs ! k = c)
                (rev [adjust_index (length xs) i..<adjust_index (length xs) j]))"
    by simp
  then have "xs ! k = c" and "k < adjust_index (length xs) j" by auto
  moreover have "adjust_index (length xs) j \<le> length xs"
    by (rule adjust_index_le)
  ultimately show ?thesis using Cons by (auto simp: py_rfind_def)
qed

lemma py_rfind_absent: "c \<notin> set xs \<Longrightarrow> py_rfind xs c i j = - 1"
  using py_rfind_cases [of xs c i j] by (auto simp: in_set_conv_nth)

lemma chunk_end_no_delimiter:
  assumes "CHR ''.'' \<notin> set text" "CHR 0x0A \<notin> set text" "0 \<le> start"
  shows "chunk_end self text start = start + chunk_size self"
  using assms by (simp add: chunk_end_def py_rfind_absent Let_def)

lemma chunk_end_progress:
  "chunk_end self text start \<ge> start + min 2 (chunk_size self)"
  by (auto simp: chunk_end_def Let_def)

lemma split_loop_returns:
  assumes step: "\<And>s. 0 \<le> s \<Longrightarrow> s < int (length text) \<Longrightarrow>
                   s + d \<le> chunk_end self text s - chunk_overlap self"
    and d: "0 < d"
  shows "0 \<le> start \<Longrightarrow> int (length text) - start \<le> int n * d
           \<Longrightarrow> split_loop n self text start chunks \<noteq> None"
proof (induction n arbitrary: start chunks)
  case 0
  then show ?case by simp
next
  case (Suc n)
  show ?case
  proof (cases "start < int (length text)")
    case False
    then show ?thesis by simp
  next
    case True
    define start' where "start' = chunk_end self text start - chunk_overlap self"
    have adv: "start + d \<le> start'"
      unfolding start'_def using step Suc.prems(1) True by simp
    show ?thesis
    proof (cases "start' \<ge> int (length text)")
      case True
      then show ?thesis using \<open>start < int (length text)\<close>
        by (simp add: Let_def start'_def)
    next
      case False
      have "0 \<le> start'" using adv d Suc.prems(1) by simp
      moreover have "int (length text) - start' \<le> int n * d"
        using adv Suc.prems(2) by (simp add: algebra_simps)
      ultimately have "split_loop n self text start'
          (append_chunk chunks (py_strip (py_slice text start (chunk_end self text start)))) \<noteq> None"
        by (rule Suc.IH)
      then show ?thesis using \<open>start < int (length text)\<close> False
        by (simp add: Let_def start'_def)
    qed
  qed
qed

lemma split_loop_mono:
  "split_loop n self text start chunks = Some r
     \<Longrightarrow> split_loop (n + m) self text start chunks = Some r"
proof (induction n arbitrary: start chunks)
  case 0
  then have "\<not> start < int (length text)" and "r = chunks"
    by (auto split: if_splits)
  then show ?case by (cases m) simp_all
next
  case (Suc n)
  show ?case
  proof (cases "start < int (length text)")
    case False
    then show ?thesis using Suc.prems by simp
  next
    case True
    define start' where "start' = chunk_end self text start - chunk_overlap self"
    define chunks' where
      "chunks' = append_chunk chunks (py_strip (py_slice text start (chunk_end self text start)))"
    show ?thesis
    proof (cases "start' \<ge> int (length text)")
      case True
      then show ?thesis using Suc.prems \<open>start < int (length text)\<close>
        by (simp add: Let_def start'_def)
    next
      case False
      then have "split_loop n self text start' chunks' = Some r"
        using Suc.prems \<open>start < int (length text)\<close>
        by (simp add: Let_def start'_def chunks'_def)
      then have "split_loop (n + m) self text start' chunks' = Some r"
        by (rule Suc.IH)
      then show ?thesis using False \<open>start < int (length text)\<close>
        by (simp add: Let_def start'_def chunks'_def)
    qed
  qed
qed

lemma split_text_mono:
  assumes "split_text n self text = Some r" "n \<le> m"
  shows "split_text m self text = Some r"
proof (cases "int (length text) \<le> chunk_size self")
  case True
  then show ?thesis using assms by (simp add: split_text_def)
next
  case False
  then have "split_loop n self text 0 [] = Some r"
    using assms by (simp add: split_text_def)
  then have "split_loop (n + (m - n)) self text 0 [] = Some r"
    by (rule split_loop_mono)
  then show ?thesis using False assms by (simp add: split_text_def)
qed

text \<open>
  C1, amended. For every text and every valid configuration (\<open>chunk_size > 0\<close>,
  \<open>0 <= chunk_overlap < chunk_size\<close>):
  \<^item> if the text holds no period and no newline, \<open>split_text\<close> returns, and its loop
    runs at most \<open>ceil(len(text) / (chunk_size - chunk_overlap))\<close> times;
  \<^item> if \<open>chunk_overlap <= 1\<close>, \<open>split_text\<close> returns, and its loop runs at most
    \<open>len(text)\<close> times.
  In both cases every larger bound gives the same chunks. Texts with a period or a
  newline under \<open>chunk_overlap >= 2\<close> are left out.
\<close>

theorem split_text_terminates:
  assumes "0 < chunk_size self" "0 \<le> chunk_overlap self"
    "chunk_overlap self < chunk_size self"
  shows "(CHR ''.'' \<notin> set text \<and> CHR 0x0A \<notin> set text \<longrightarrow>
            (\<exists>chunks. \<forall>m \<ge> nat (ceil_div (int (length text))
                                    (chunk_size self - chunk_overlap self)).
                split_text m self text = Some chunks))
       \<and> (chunk_overlap self \<le> 1 \<longrightarrow>
            (\<exists>chunks. \<forall>m \<ge> length text. split_text m self text = Some chunks))"
proof (intro conjI impI)
  define d where "d = chunk_size self - chunk_overlap self"
  define N where "N = nat (ceil_div (int (length text)) d)"
  assume nd: "CHR ''.'' \<notin> set text \<and> CHR 0x0A \<notin> set text"
  have d: "0 < d" using assms by (simp add: d_def)
  have "int (length text) \<le> ceil_div (int (length text)) d * d"
    using d by (rule ceil_div_covers)
  moreover have "0 \<le> ceil_div (int (length text)) d"
    using d by (intro ceil_div_nonneg) simp_all
  ultimately have cover: "int (length text) - 0 \<le> int N * d"
    by (simp add: N_def)
  have "split_loop N self text 0 [] \<noteq> None"
  proof (rule split_loop_returns [where d = d])
    fix s :: int
    assume "0 \<le> s"
    then show "s + d \<le> chunk_end self text s - chunk_overlap self"
      using nd by (simp add: chunk_end_no_delimiter d_def)
  next
    show "0 < d" by (rule d)
  next
    show "(0::int) \<le> 0" by simp
  next
    show "int (length text) - 0 \<le> int N * d" by (rule cover)
  qed
  then have "split_text N self text \<noteq> None"
    by (simp add: split_text_def)
  then obtain r where "split_text N self text = Some r" by auto
  then have "\<forall>m \<ge> N. split_text m self text = Some r"
    using split_text_mono by blast
  then show "\<exists>chunks. \<forall>m \<ge> nat (ceil_div (int (length text))
                 (chunk_size self - chunk_overlap self)). split_text m self text = Some chunks"
    unfolding N_def d_def by blast
next
  assume ov: "chunk_overlap self \<le> 1"
  have "split_loop (length text) self text 0 [] \<noteq> None"
  proof (rule split_loop_returns [where d = 1])
    fix s :: int
    have "s + min 2 (chunk_size self) \<le> chunk_end self text s"
      by (rule chunk_end_progress)
    then show "s + 1 \<le> chunk_end self text s - chunk_overlap self"
      using ov assms by simp
  qed simp_all
  then have "split_text (length text) self text \<noteq> None"
    by (simp add: split_text_def)
  then obtain r where "split_text (length text) self text = Some r" by auto
  then have "\<forall>m \<ge> length text. split_text m self text = Some r"
    using split_text_mono by blast
  then show "\<exists>chunks. \<forall>m \<ge> length text. split_text m self text = Some chunks"
    by blast
qed

theorem split_text_terminates_witness:
  "(\<exists>chunks. \<forall>m \<ge> 3. split_text m \<lparr>chunk_size = 10, chunk_overlap = 1\<rparr>
       ''abcdefghijklmnopqrstuvwxy'' = Some chunks)
   \<and> (\<exists>chunks. \<forall>m \<ge> length ''abcdefghijklmnopqrstuvwxy''. split_text m \<lparr>chunk_size = 10, chunk_overlap = 1\<rparr>
       ''abcdefghijklmnopqrstuvwxy'' = Some chunks)"
  using split_text_terminates [of "\<lparr>chunk_size = 10, chunk_overlap = 1\<rparr>"
      "''abcdefghijklmnopqrstuvwxy''"]
  by (simp add: ceil_div_def)

text \<open>
  C1, as stated: under a valid configuration the loop runs at most
  \<open>ceil(len(text) / (chunk_size - chunk_overlap))\<close> times. With \<open>chunk_size = 10\<close> and
  no overlap, a text of 20 characters whose second character is a period has the
  bound 2; the first chunk is cut after the period, and the loop has not finished
  after two iterations: it needs three.
\<close>

theorem split_text_exceeds_iteration_bound:
  "nat (ceil_div (int (length ''a.bbbbbbbbbbbbbbbbbb'')) (10 - 0)) = 2
   \<and> split_text 2 \<lparr>chunk_size = 10, chunk_overlap = 0\<rparr> ''a.bbbbbbbbbbbbbbbbbb'' = None
   \<and> split_text 3 \<lparr>chunk_size = 10, chunk_overlap = 0\<rparr> ''a.bbbbbbbbbbbbbbbbbb''
       = Some [''a.'', ''bbbbbbbbbb'', ''bbbbbbbb'']"
  by code_simp

text \<open>
  Where the chunk cut at a period is shorter than the overlap, the cursor moves
  backwards. With \<open>chunk_size = 10\<close> and \<open>chunk_overlap = 5\<close> it reaches \<open>-5\<close> after two
  iterations and stays there: no bound on the iterations is enough.
\<close>

lemma split_loop_stuck:
  "split_loop n \<lparr>chunk_size = 10, chunk_overlap = 5\<rparr> ''a.bbbbbbbbbbbbbbbbbbbb'' (- 5) [''a.'']
     = None"
proof (induction n)
  case 0
  show ?case by simp
next
  case (Suc n)
  have ce: "chunk_end \<lparr>chunk_size = 10, chunk_overlap = 5\<rparr> ''a.bbbbbbbbbbbbbbbbbbbb'' (- 5) = 0"
    by code_simp
  have sl: "py_strip (py_slice ''a.bbbbbbbbbbbbbbbbbbbb'' (- 5) 0) = []"
    by code_simp
  show ?case using Suc.IH by (simp add: ce sl append_chunk_def)
qed

lemma split_text_diverges:
  "split_text n \<lparr>chunk_size = 10, chunk_overlap = 5\<rparr> ''a.bbbbbbbbbbbbbbbbbbbb'' = None"
proof (cases n)
  case 0
  then show ?thesis by (simp add: split_text_def)
next
  case (Suc k)
  have ce0: "chunk_end \<lparr>chunk_size = 10, chunk_overlap = 5\<rparr> ''a.bbbbbbbbbbbbbbbbbbbb'' 0 = 2"
    by code_simp
  have sl0: "py_strip (py_slice ''a.bbbbbbbbbbbbbbbbbbbb'' 0 2) = ''a.''"
    by code_simp
  have ce1: "chunk_end \<lparr>chunk_size = 10, chunk_overlap = 5\<rparr> ''a.bbbbbbbbbbbbbbbbbbbb'' (- 3) = 0"
    by code_simp
  have sl1: "py_strip (py_slice ''a.bbbbbbbbbbbbbbbbbbbb'' (- 3) 0) = []"
    by code_simp
  have second: "split_loop k \<lparr>chunk_size = 10, chunk_overlap = 5\<rparr> ''a.bbbbbbbbbbbbbbbbbbbb''
                  (- 3) [''a.''] = None"
  proof (cases k)
    case 0
    then show ?thesis by simp
  next
    case (Suc j)
    then show ?thesis using split_loop_stuck [of j]
      by (simp add: ce1 sl1 append_chunk_def)
  qed
  show ?thesis using Suc second
    by (simp add: split_text_def ce0 sl0 append_chunk_def)
qed

text \<open>
  C2: the chunks of a text longer than \<open>chunk_size\<close> should cover the text. With
  \<open>chunk_size = 10\<close> and \<open>chunk_overlap = 3\<close> the first chunk of the text below is cut
  after its period, at 2, and the cursor moves to \<open>-1\<close>; the slice from \<open>-1\<close> to 9 is
  empty, and the next chunk starts at 6. The characters at 2 to 5 are in no chunk.
\<close>

theorem split_text_drops_text:
  "split_text (4 + n) \<lparr>chunk_size = 10, chunk_overlap = 3\<rparr> ''a.bcdefghijklmn''
     = Some [''a.'', ''fghijklmn'', ''mn'']
   \<and> CHR ''b'' \<notin> set (concat [''a.'', ''fghijklmn'', ''mn''])"
proof -
  have "split_text 4 \<lparr>chunk_size = 10, chunk_overlap = 3\<rparr> ''a.bcdefghijklmn''
     = Some [''a.'', ''fghijklmn'', ''mn'']"
    by code_simp
  then have "split_text (4 + n) \<lparr>chunk_size = 10, chunk_overlap = 3\<rparr> ''a.bcdefghijklmn''
     = Some [''a.'', ''fghijklmn'', ''mn'']"
    by (rule split_text_mono) simp
  then show ?thesis by simp
qed

section \<open>Metadata of the chunks\<close>

lemma emit_chunks_step:
  "emit_chunks md total_chunks idx (c # cs) acc =
     emit_chunks md total_chunks (idx + 1) cs (acc @ [chunk_doc md total_chunks idx c])"
  by (simp add: chunk_doc_def)

lemma emit_chunks_eq:
  "emit_chunks md total_chunks idx chunks acc =
     acc @ map (\<lambda>i. chunk_doc md total_chunks (idx + int i) (chunks ! i)) [0..<length chunks]"
proof (induction chunks arbitrary: idx acc)
  case Nil
  show ?case by simp
next
  case (Cons c cs)
  have upt: "[0..<length (c # cs)] = 0 # map Suc [0..<length cs]"
    by (simp add: upt_conv_Cons map_Suc_upt del: upt_Suc)
  show ?case
    unfolding upt emit_chunks_step by (simp add: Cons.IH comp_def add.assoc)
qed

lemma emit_chunks_expected:
  "emit_chunks (metadata doc) (int (length cs)) 0 cs acc = acc @ expected_chunks doc cs"
  by (simp add: emit_chunks_eq expected_chunks_def)

lemma chunk_documents_loop_eq:
  "chunk_documents_loop n self docs acc = Some out \<Longrightarrow>
     \<exists>css. length css = length docs
        \<and> (\<forall>j<length docs. split_text n self (page_content (docs ! j)) = Some (css ! j))
        \<and> out = acc @ concat (map2 expected_chunks docs css)"
proof (induction docs arbitrary: acc)
  case Nil
  then show ?case by simp
next
  case (Cons d ds)
  from Cons.prems obtain cs where
    cs: "split_text n self (page_content d) = Some cs" and
    rest: "chunk_documents_loop n self ds (acc @ expected_chunks d cs) = Some out"
    by (auto simp: emit_chunks_expected split: option.splits)
  from Cons.IH [OF rest] obtain css where
    len: "length css = length ds" and
    each: "\<forall>j<length ds. split_text n self (page_content (ds ! j)) = Some (css ! j)" and
    out: "out = (acc @ expected_chunks d cs) @ concat (map2 expected_chunks ds css)"
    by blast
  have "\<forall>j<length (d # ds). split_text n self (page_content ((d # ds) ! j)) = Some ((cs # css) ! j)"
    using cs each by (auto simp: nth_Cons split: nat.splits)
  moreover have "length (cs # css) = length (d # ds)" using len by simp
  moreover have "out = acc @ concat (map2 expected_chunks (d # ds) (cs # css))"
    using out by simp
  ultimately show ?case by blast
qed

lemma nth_concat_offset:
  "j < length xss \<Longrightarrow> i < length (xss ! j)
     \<Longrightarrow> concat xss ! (length (concat (take j xss)) + i) = xss ! j ! i"
proof (induction xss arbitrary: j)
  case Nil
  then show ?case by simp
next
  case (Cons xs xss)
  show ?case
  proof (cases j)
    case 0
    then show ?thesis using Cons.prems by (simp add: nth_append)
  next
    case (Suc k)
    then show ?thesis using Cons.prems Cons.IH [of k]
      by (simp add: nth_append add.assoc)
  qed
qed

lemma length_expected_chunks: "length (expected_chunks doc cs) = length cs"
  by (simp add: expected_chunks_def)

lemma contents_expected_chunks: "map page_content (expected_chunks doc cs) = cs"
  by (simp add: expected_chunks_def chunk_doc_def comp_def map_nth)

lemma contents_map2_expected:
  "length docs = length css
     \<Longrightarrow> map page_content (concat (map2 expected_chunks docs css)) = concat css"
  by (induction docs css rule: list_induct2) (simp_all add: contents_expected_chunks)

lemma offset_map2_expected:
  "length docs = length css
     \<Longrightarrow> length (concat (take j (map2 expected_chunks docs css))) = length (concat (take j css))"
proof (induction docs css arbitrary: j rule: list_induct2)
  case Nil
  show ?case by simp
next
  case (Cons d ds cs css)
  show ?case by (cases j) (simp_all add: Cons.IH length_expected_chunks)
qed

lemma chunk_documents_loop_returns_iff:
  "chunk_documents_loop n self docs acc \<noteq> None
     \<longleftrightarrow> (\<forall>d \<in> set docs. split_text n self (page_content d) \<noteq> None)"
  by (induction docs arbitrary: acc) (auto split: option.splits)

lemma split_text_returns:
  assumes cfg: "0 < chunk_size self" "0 \<le> chunk_overlap self"
      "chunk_overlap self < chunk_size self"
    and regime: "chunk_overlap self \<le> 1 \<or> (CHR ''.'' \<notin> set txt \<and> CHR 0x0A \<notin> set txt)"
    and fuel: "length txt \<le> n"
  shows "split_text n self txt \<noteq> None"
proof -
  have step: "s + 1 \<le> chunk_end self txt s - chunk_overlap self" if "0 \<le> s" for s
    using regime
  proof
    assume "chunk_overlap self \<le> 1"
    moreover have "s + min 2 (chunk_size self) \<le> chunk_end self txt s"
      by (rule chunk_end_progress)
    ultimately show ?thesis using cfg by simp
  next
    assume "CHR ''.'' \<notin> set txt \<and> CHR 0x0A \<notin> set txt"
    then have "chunk_end self txt s = s + chunk_size self"
      using that by (simp add: chunk_end_no_delimiter)
    then show ?thesis using cfg by simp
  qed
  have "split_loop (length txt) self txt 0 [] \<noteq> None"
    by (rule split_loop_returns [where d = 1]) (use step in simp_all)
  then have "split_text (length txt) self txt \<noteq> None"
    by (simp add: split_text_def)
  then obtain r where "split_text (length txt) self txt = Some r" by auto
  then have "split_text n self txt = Some r" using fuel by (rule split_text_mono)
  then show ?thesis by simp
qed

text \<open>
  C9. \<open>chunk_documents\<close> returns exactly when \<open>split_text\<close> returns on the text of every
  document; under a valid configuration it does so, within as many iterations as the
  longest text has characters, when the overlap is at most one character or no text
  holds a period or a newline. Its output is made of the chunks of each input
  document, document after document and, within a document, in the order \<open>split_text\<close>
  produced them (\<open>css ! j\<close> holds the chunks of document \<open>j\<close>). The chunk at index \<open>i\<close>
  of document \<open>j\<close> carries \<open>chunk = i\<close> with \<open>0 <= i < total_chunks\<close>, \<open>total_chunks\<close>
  equal to the number of chunks of document \<open>j\<close>, and under every other key the
  metadata of document \<open>j\<close>, unchanged.
\<close>

theorem chunk_documents_metadata:
  "(chunk_documents n self docs \<noteq> None
      \<longleftrightarrow> (\<forall>d \<in> set docs. split_text n self (page_content d) \<noteq> None))
   \<and> (0 < chunk_size self \<and> 0 \<le> chunk_overlap self \<and> chunk_overlap self < chunk_size self
        \<and> (\<forall>d \<in> set docs. length (page_content d) \<le> n
               \<and> (chunk_overlap self \<le> 1
                    \<or> (CHR ''.'' \<notin> set (page_content d) \<and> CHR 0x0A \<notin> set (page_content d))))
        \<longrightarrow> chunk_documents n self docs \<noteq> None)
   \<and> (\<forall>out. chunk_documents n self docs = Some out \<longrightarrow>
        (\<exists>css. length css = length docs
          \<and> (\<forall>j<length docs. split_text n self (page_content (docs ! j)) = Some (css ! j))
          \<and> map page_content out = concat css
          \<and> (\<forall>j<length docs. \<forall>i<length (css ! j).
                let c = out ! (length (concat (take j css)) + i)
                in page_content c = css ! j ! i
                 \<and> metadata c ''chunk'' = Some (MInt (int i))
                 \<and> metadata c ''total_chunks'' = Some (MInt (int (length (css ! j))))
                 \<and> 0 \<le> int i \<and> int i < int (length (css ! j))
                 \<and> (\<forall>key. key \<noteq> ''chunk'' \<and> key \<noteq> ''total_chunks''
                        \<longrightarrow> metadata c key = metadata (docs ! j) key))))"
proof (intro conjI allI impI)
  show iff: "chunk_documents n self docs \<noteq> None
      \<longleftrightarrow> (\<forall>d \<in> set docs. split_text n self (page_content d) \<noteq> None)"
    unfolding chunk_documents_def by (rule chunk_documents_loop_returns_iff)
  assume h: "0 < chunk_size self \<and> 0 \<le> chunk_overlap self \<and> chunk_overlap self < chunk_size self
        \<and> (\<forall>d \<in> set docs. length (page_content d) \<le> n
               \<and> (chunk_overlap self \<le> 1
                    \<or> (CHR ''.'' \<notin> set (page_content d) \<and> CHR 0x0A \<notin> set (page_content d))))"
  have "split_text n self (page_content d) \<noteq> None" if "d \<in> set docs" for d
  proof (rule split_text_returns)
    show "0 < chunk_size self" "0 \<le> chunk_overlap self" "chunk_overlap self < chunk_size self"
      using h by simp_all
    show "chunk_overlap self \<le> 1
            \<or> (CHR ''.'' \<notin> set (page_content d) \<and> CHR 0x0A \<notin> set (page_content d))"
      using h that by blast
    show "length (page_content d) \<le> n" using h that by blast
  qed
  then show "chunk_documents n self docs \<noteq> None" using iff by blast
next
  fix out
  assume run: "chunk_documents n self docs = Some out"
  then obtain css where
    len: "length css = length docs" and
    each: "\<forall>j<length docs. split_text n self (page_content (docs ! j)) = Some (css ! j)" and
    out: "out = concat (map2 expected_chunks docs css)"
    using chunk_documents_loop_eq [of n self docs "[]" out]
    by (auto simp: chunk_documents_def)
  have contents: "map page_content out = concat css"
    using len by (simp add: out contents_map2_expected)
  have elem: "out ! (length (concat (take j css)) + i)
                = chunk_doc (metadata (docs ! j)) (int (length (css ! j))) (int i) (css ! j ! i)"
    if j: "j < length docs" and i: "i < length (css ! j)" for j i
  proof -
    let ?blocks = "map2 expected_chunks docs css"
    have jb: "j < length ?blocks" using j len by simp
    have bj: "?blocks ! j = expected_chunks (docs ! j) (css ! j)"
      using j len by simp
    have ib: "i < length (?blocks ! j)"
      using i by (simp add: bj length_expected_chunks)
    have "concat ?blocks ! (length (concat (take j ?blocks)) + i) = ?blocks ! j ! i"
      using jb ib by (rule nth_concat_offset)
    moreover have "length (concat (take j ?blocks)) = length (concat (take j css))"
      using len by (simp add: offset_map2_expected)
    moreover have "expected_chunks (docs ! j) (css ! j) ! i
          = chunk_doc (metadata (docs ! j)) (int (length (css ! j))) (int i) (css ! j ! i)"
      using i by (simp add: expected_chunks_def)
    ultimately show ?thesis by (simp add: out bj)
  qed
  have "\<forall>j<length docs. \<forall>i<length (css ! j).
            let c = out ! (length (concat (take j css)) + i)
            in page_content c = css ! j ! i
             \<and> metadata c ''chunk'' = Some (MInt (int i))
             \<and> metadata c ''total_chunks'' = Some (MInt (int (length (css ! j))))
             \<and> 0 \<le> int i \<and> int i < int (length (css ! j))
             \<and> (\<forall>key. key \<noteq> ''chunk'' \<and> key \<noteq> ''total_chunks''
                    \<longrightarrow> metadata c key = metadata (docs ! j) key)"
    by (simp add: elem chunk_doc_def Let_def)
  then show "\<exists>css. length css = length docs
          \<and> (\<forall>j<length docs. split_text n self (page_content (docs ! j)) = Some (css ! j))
          \<and> map page_content out = concat css
          \<and> (\<forall>j<length docs. \<forall>i<length (css ! j).
                let c = out ! (length (concat (take j css)) + i)
                in page_content c = css ! j ! i
                 \<and> metadata c ''chunk'' = Some (MInt (int i))
                 \<and> metadata c ''total_chunks'' = Some (MInt (int (length (css ! j))))
                 \<and> 0 \<le> int i \<and> int i < int (length (css ! j))
                 \<and> (\<forall>key. key \<noteq> ''chunk'' \<and> key \<noteq> ''total_chunks''
                        \<longrightarrow> metadata c key = metadata (docs ! j) key))"
    using len each contents by (intro exI [of _ css] conjI) assumption+
qed

theorem chunk_documents_metadata_witness:
  "\<exists>out css. chunk_documents 12 \<lparr>chunk_size = 5, chunk_overlap = 1\<rparr>
       [\<lparr>metadata = [''source_file'' \<mapsto> MStr ''f.pdf'', ''page'' \<mapsto> MInt 0],
          page_content = ''short''\<rparr>,
        \<lparr>metadata = [''source_file'' \<mapsto> MStr ''g.pdf'', ''page'' \<mapsto> MInt 7],
          page_content = ''abc.defghijk''\<rparr>] = Some out
     \<and> map page_content out = [''short'', ''abc.'', ''.defg'', ''ghijk'', ''k'']
     \<and> length css = length
       [\<lparr>metadata = [''source_file'' \<mapsto> MStr ''f.pdf'', ''page'' \<mapsto> MInt 0],
          page_content = ''short''\<rparr>,
        \<lparr>metadata = [''source_file'' \<mapsto> MStr ''g.pdf'', ''page'' \<mapsto> MInt 7],
          page_content = ''abc.defghijk''\<rparr>]
     \<and> map page_content out = concat css
     \<and> (\<forall>j<length
       [\<lparr>metadata = [''source_file'' \<mapsto> MStr ''f.pdf'', ''page'' \<mapsto> MInt 0],
          page_content = ''short''\<rparr>,
        \<lparr>metadata = [''source_file'' \<mapsto> MStr ''g.pdf'', ''page'' \<mapsto> MInt 7],
          page_content = ''abc.defghijk''\<rparr>]. \<forall>i<length (css ! j).
            let c = out ! (length (concat (take j css)) + i)
            in page_content c = css ! j ! i
             \<and> metadata c ''chunk'' = Some (MInt (int i))
             \<and> metadata c ''total_chunks'' = Some (MInt (int (length (css ! j))))
             \<and> 0 \<le> int i \<and> int i < int (length (css ! j))
             \<and> (\<forall>key. key \<noteq> ''chunk'' \<and> key \<noteq> ''total_chunks''
                    \<longrightarrow> metadata c key = metadata
       ([\<lparr>metadata = [''source_file'' \<mapsto> MStr ''f.pdf'', ''page'' \<mapsto> MInt 0],
          page_content = ''short''\<rparr>,
        \<lparr>metadata = [''source_file'' \<mapsto> MStr ''g.pdf'', ''page'' \<mapsto> MInt 7],
          page_content = ''abc.defghijk''\<rparr>] ! j) key))"
proof -
  let ?self = "\<lparr>chunk_size = 5, chunk_overlap = 1\<rparr>"
  let ?docs = "[\<lparr>metadata = [''source_file'' \<mapsto> MStr ''f.pdf'', ''page'' \<mapsto> MInt 0],
          page_content = ''short''\<rparr>,
        \<lparr>metadata = [''source_file'' \<mapsto> MStr ''g.pdf'', ''page'' \<mapsto> MInt 7],
          page_content = ''abc.defghijk''\<rparr>]"
  note th = chunk_documents_metadata [of 12 ?self ?docs]
  have cfg: "0 < chunk_size ?self \<and> 0 \<le> chunk_overlap ?self
        \<and> chunk_overlap ?self < chunk_size ?self
        \<and> (\<forall>d \<in> set ?docs. length (page_content d) \<le> 12
               \<and> (chunk_overlap ?self \<le> 1
                    \<or> (CHR ''.'' \<notin> set (page_content d) \<and> CHR 0x0A \<notin> set (page_content d))))"
    by simp
  have "chunk_documents 12 ?self ?docs \<noteq> None"
    by (rule th [THEN conjunct2, THEN conjunct1, THEN mp, OF cfg])
  then obtain out where run: "chunk_documents 12 ?self ?docs = Some out" by auto
  have s0: "split_text 12 ?self ''short'' = Some [''short'']" by code_simp
  have s1: "split_text 12 ?self ''abc.defghijk'' = Some [''abc.'', ''.defg'', ''ghijk'', ''k'']"
    by code_simp
  have "map_option (map page_content) (chunk_documents 12 ?self ?docs)
          = Some [''short'', ''abc.'', ''.defg'', ''ghijk'', ''k'']"
    by (simp add: chunk_documents_def s0 s1)
  then have pc: "map page_content out = [''short'', ''abc.'', ''.defg'', ''ghijk'', ''k'']"
    unfolding run by simp
  from th [THEN conjunct2, THEN conjunct2, rule_format, OF run] obtain css where
    "length css = length ?docs"
    "map page_content out = concat css"
    "\<forall>j<length ?docs. \<forall>i<length (css ! j).
            let c = out ! (length (concat (take j css)) + i)
            in page_content c = css ! j ! i
             \<and> metadata c ''chunk'' = Some (MInt (int i))
             \<and> metadata c ''total_chunks'' = Some (MInt (int (length (css ! j))))
             \<and> 0 \<le> int i \<and> int i < int (length (css ! j))
             \<and> (\<forall>key. key \<noteq> ''chunk'' \<and> key \<noteq> ''total_chunks''
                    \<longrightarrow> metadata c key = metadata (?docs ! j) key)"
    by (elim exE conjE) (rule that)
  then show ?thesis using run pc
    by (intro exI [of _ out] exI [of _ css] conjI) assumption+
qed

section \<open>Blocks of the context string\<close>

lemma context_block_Inr:
  assumes "doc ''metadata'' = Some (PDict md)" "doc ''content'' = Some c"
    "dict_get doc ''score'' (PFloat (Finite 0)) = PFloat x"
  shows "context_block render idx doc = Inr (block_text idx md x (py_str_val render c))"
  using assms by (simp add: context_block_def block_text_def Let_def)

lemma formattable_parts:
  assumes "formattable doc"
  shows "\<exists>md c x. doc ''metadata'' = Some (PDict md) \<and> doc ''content'' = Some c
           \<and> dict_get doc ''score'' (PFloat (Finite 0)) = PFloat x"
  using assms
  by (auto simp: formattable_def dict_get_def split: option.splits pyval.splits)


lemma format_context_loop_returns:
  "\<forall>d \<in> set docs. formattable d \<Longrightarrow>
     \<exists>blocks. length blocks = length docs
        \<and> format_context_loop render idx docs acc = Inr (acc @ blocks)
        \<and> (\<forall>i<length docs. context_block render (idx + int i) (docs ! i) = Inr (blocks ! i))"
proof (induction docs arbitrary: idx acc)
  case Nil
  show ?case by simp
next
  case (Cons d ds)
  from Cons.prems have "formattable d" by simp
  then obtain md c x where
    "d ''metadata'' = Some (PDict md)" "d ''content'' = Some c"
    "dict_get d ''score'' (PFloat (Finite 0)) = PFloat x"
    using formattable_parts by blast
  then have blk: "context_block render idx d = Inr (block_text idx md x (py_str_val render c))"
    by (rule context_block_Inr)
  define b where "b = block_text idx md x (py_str_val render c)"
  from Cons.prems have "\<forall>d \<in> set ds. formattable d" by simp
  from Cons.IH [OF this, of "idx + 1" "acc @ [b]"] obtain bs where
    len: "length bs = length ds" and
    run: "format_context_loop render (idx + 1) ds (acc @ [b]) = Inr ((acc @ [b]) @ bs)" and
    each: "\<forall>i<length ds. context_block render (idx + 1 + int i) (ds ! i) = Inr (bs ! i)"
    by blast
  have "length (b # bs) = length (d # ds)" using len by simp
  moreover have "format_context_loop render idx (d # ds) acc = Inr (acc @ b # bs)"
    using blk run by (simp add: b_def)
  moreover have "\<forall>i<length (d # ds).
      context_block render (idx + int i) ((d # ds) ! i) = Inr ((b # bs) ! i)"
  proof (intro allI impI)
    fix i assume "i < length (d # ds)"
    then show "context_block render (idx + int i) ((d # ds) ! i) = Inr ((b # bs) ! i)"
      using blk each by (cases i) (simp_all add: b_def add.assoc)
  qed
  ultimately show ?case by blast
qed


lemma format_retrieved_context_loop_eq:
  "format_retrieved_context_loop idx docs acc =
     acc @ map (\<lambda>i. context_part (idx + int i) (docs ! i)) [0..<length docs]"
proof (induction docs arbitrary: idx acc)
  case Nil
  show ?case by simp
next
  case (Cons d ds)
  have upt: "[0..<length (d # ds)] = 0 # map Suc [0..<length ds]"
    by (simp add: upt_conv_Cons map_Suc_upt del: upt_Suc)
  show ?case
    unfolding upt by (simp add: Cons.IH comp_def add.assoc)
qed

lemma digit_char_digit: "d < 10 \<Longrightarrow> digit_char d \<in> set ''0123456789''"
  unfolding digit_char_def by (rule nth_mem) simp

lemma string_of_nat_digits: "set (string_of_nat n) \<subseteq> set ''0123456789''"
proof (induction n rule: string_of_nat.induct)
  case (1 n)
  show ?case
  proof (cases "n < 10")
    case True
    then show ?thesis
      using digit_char_digit [of n] by (subst string_of_nat.simps) simp
  next
    case False
    have "n mod 10 < 10" by simp
    then have "digit_char (n mod 10) \<in> set ''0123456789''" by (rule digit_char_digit)
    then show ?thesis
      using False "1.IH" by (subst string_of_nat.simps) simp
  qed
qed

lemma fmt_3f_three_decimals:
  "\<exists>whole a b c. fmt_3f (Finite x) = whole @ [CHR ''.'', a, b, c]
      \<and> CHR ''.'' \<notin> set whole
      \<and> a \<in> set ''0123456789'' \<and> b \<in> set ''0123456789'' \<and> c \<in> set ''0123456789''"
proof -
  define n where "n = nat (round_half_even (\<bar>x\<bar> * 1000))"
  define whole where "whole = (if x < 0 then [CHR ''-''] else []) @ string_of_nat (n div 1000)"
  have "CHR ''.'' \<notin> set (string_of_nat (n div 1000))"
    using string_of_nat_digits [of "n div 1000"] by auto
  then have nodot: "CHR ''.'' \<notin> set whole" by (simp add: whole_def)
  have eq: "fmt_3f (Finite x) = whole @ [CHR ''.'', digit_char (n div 100 mod 10),
                                digit_char (n div 10 mod 10), digit_char (n mod 10)]"
    by (simp add: Let_def n_def whole_def)
  have "digit_char (n div 100 mod 10) \<in> set ''0123456789''"
    "digit_char (n div 10 mod 10) \<in> set ''0123456789''"
    "digit_char (n mod 10) \<in> set ''0123456789''"
    by (rule digit_char_digit, simp)+
  then show ?thesis using eq nodot by blast
qed


lemma py_join_pair:
  assumes "length bs = length [x, y]"
  shows "py_join sep bs = bs ! 0 @ sep @ bs ! 1"
proof -
  from assms obtain a b where "bs = [a, b]"
    by (cases bs; cases "tl bs") auto
  then show ?thesis by simp
qed

text \<open>
  C8, amended. For every non-empty list of search results that each hold a metadata
  dictionary, a content entry and a score that is absent or a float, \<open>format_context\<close>
  returns one block per result, joined by a newline; the block at 1-based position \<open>i\<close>
  is the header \<open>[Document i] (Source: s, Page: p, Score: x)\<close> with the source, the page
  and the score of result \<open>i\<close>, a newline, the content as it is (not trimmed), and a
  newline. A finite score is printed with exactly three decimals, the negative zero as
  \<open>-0.000\<close>, not-a-number as \<open>nan\<close> and the infinities as \<open>inf\<close> and \<open>-inf\<close>.
  For every non-empty list of documents, \<open>format_retrieved_context\<close> returns one part
  per document, joined by a rule of three dashes between blank lines; the part at
  position \<open>i\<close> is the header \<open>[Source i: s, page p]\<close>, without a score, a newline, and
  the content trimmed.
\<close>

theorem format_context_blocks:
  "(docs \<noteq> [] \<and> (\<forall>d \<in> set docs. formattable d) \<longrightarrow>
      (\<exists>blocks. length blocks = length docs
         \<and> format_context render docs = Inr (py_join [CHR 0x0A] blocks)
         \<and> (\<forall>i<length docs. \<exists>md c x.
               (docs ! i) ''metadata'' = Some (PDict md) \<and> (docs ! i) ''content'' = Some c
             \<and> dict_get (docs ! i) ''score'' (PFloat (Finite 0)) = PFloat x
             \<and> blocks ! i =
                 ''[Document '' @ string_of_int (int i + 1) @ ''] (Source: '' @
                 py_str (dict_get md ''source_file'' (MStr ''unknown'')) @
                 '', Page: '' @ py_str (dict_get md ''page'' (MStr ''?'')) @
                 '', Score: '' @ fmt_3f x @
                 '')'' @ [CHR 0x0A] @ py_str_val render c @ [CHR 0x0A])))
   \<and> (\<exists>whole a b c. fmt_3f (Finite y) = whole @ [CHR ''.'', a, b, c]
         \<and> CHR ''.'' \<notin> set whole
         \<and> a \<in> set ''0123456789'' \<and> b \<in> set ''0123456789'' \<and> c \<in> set ''0123456789'')
   \<and> fmt_3f NegZero = ''-0.000'' \<and> fmt_3f NaN = ''nan''
   \<and> fmt_3f PosInf = ''inf'' \<and> fmt_3f NegInf = ''-inf''
   \<and> (ldocs \<noteq> [] \<longrightarrow>
      (\<exists>parts. length parts = length ldocs
         \<and> format_retrieved_context ldocs
              = py_join ([CHR 0x0A, CHR 0x0A] @ ''---'' @ [CHR 0x0A, CHR 0x0A]) parts
         \<and> (\<forall>i<length ldocs. parts ! i =
               ''[Source '' @ string_of_int (int i + 1) @ '': '' @
               py_str (dict_get (metadata (ldocs ! i)) ''source_file'' (MStr ''unknown'')) @
               '', page '' @ py_str (dict_get (metadata (ldocs ! i)) ''page'' (MStr ''N/A'')) @
               '']'' @ [CHR 0x0A] @ py_strip (page_content (ldocs ! i)))))"
proof (intro conjI impI)
  assume hyp: "docs \<noteq> [] \<and> (\<forall>d \<in> set docs. formattable d)"
  then have ne: "docs \<noteq> []" and ok: "\<forall>d \<in> set docs. formattable d" by simp_all
  from format_context_loop_returns [OF ok, of render 1 "[]"] obtain blocks where
    len: "length blocks = length docs" and
    run: "format_context_loop render 1 docs [] = Inr ([] @ blocks)" and
    each: "\<forall>i<length docs. context_block render (1 + int i) (docs ! i) = Inr (blocks ! i)"
    by blast
  have out: "format_context render docs = Inr (py_join [CHR 0x0A] blocks)"
    using ne run by (simp add: format_context_def)
  have shape: "\<exists>md c x.
               (docs ! i) ''metadata'' = Some (PDict md) \<and> (docs ! i) ''content'' = Some c
             \<and> dict_get (docs ! i) ''score'' (PFloat (Finite 0)) = PFloat x
             \<and> blocks ! i =
                 ''[Document '' @ string_of_int (int i + 1) @ ''] (Source: '' @
                 py_str (dict_get md ''source_file'' (MStr ''unknown'')) @
                 '', Page: '' @ py_str (dict_get md ''page'' (MStr ''?'')) @
                 '', Score: '' @ fmt_3f x @
                 '')'' @ [CHR 0x0A] @ py_str_val render c @ [CHR 0x0A]"
    if i: "i < length docs" for i
  proof -
    from i ok have "formattable (docs ! i)" by simp
    then obtain md c x where
      parts: "(docs ! i) ''metadata'' = Some (PDict md)" "(docs ! i) ''content'' = Some c"
        "dict_get (docs ! i) ''score'' (PFloat (Finite 0)) = PFloat x"
      using formattable_parts by blast
    then have "context_block render (1 + int i) (docs ! i)
                 = Inr (block_text (1 + int i) md x (py_str_val render c))"
      by (rule context_block_Inr)
    with each i have "blocks ! i = block_text (int i + 1) md x (py_str_val render c)"
      by (simp add: add.commute)
    then show ?thesis using parts unfolding block_text_def by blast
  qed
  show "\<exists>blocks. length blocks = length docs
         \<and> format_context render docs = Inr (py_join [CHR 0x0A] blocks)
         \<and> (\<forall>i<length docs. \<exists>md c x.
               (docs ! i) ''metadata'' = Some (PDict md) \<and> (docs ! i) ''content'' = Some c
             \<and> dict_get (docs ! i) ''score'' (PFloat (Finite 0)) = PFloat x
             \<and> blocks ! i =
                 ''[Document '' @ string_of_int (int i + 1) @ ''] (Source: '' @
                 py_str (dict_get md ''source_file'' (MStr ''unknown'')) @
                 '', Page: '' @ py_str (dict_get md ''page'' (MStr ''?'')) @
                 '', Score: '' @ fmt_3f x @
                 '')'' @ [CHR 0x0A] @ py_str_val render c @ [CHR 0x0A])"
    using len out shape by (intro exI [of _ blocks] conjI allI impI)
next
  show "\<exists>whole a b c. fmt_3f (Finite y) = whole @ [CHR ''.'', a, b, c]
         \<and> CHR ''.'' \<notin> set whole
         \<and> a \<in> set ''0123456789'' \<and> b \<in> set ''0123456789'' \<and> c \<in> set ''0123456789''"
    by (rule fmt_3f_three_decimals)
next
  show "fmt_3f NegZero = ''-0.000''" "fmt_3f NaN = ''nan''"
    "fmt_3f PosInf = ''inf''" "fmt_3f NegInf = ''-inf''"
    by simp_all
next
  assume ne: "ldocs \<noteq> []"
  let ?parts = "map (\<lambda>i. context_part (1 + int i) (ldocs ! i)) [0..<length ldocs]"
  have "format_retrieved_context ldocs
          = py_join ([CHR 0x0A, CHR 0x0A] @ ''---'' @ [CHR 0x0A, CHR 0x0A]) ?parts"
    using ne by (simp add: format_retrieved_context_def format_retrieved_context_loop_eq)
  moreover have "length ?parts = length ldocs" by simp
  moreover have "\<forall>i<length ldocs. ?parts ! i =
               ''[Source '' @ string_of_int (int i + 1) @ '': '' @
               py_str (dict_get (metadata (ldocs ! i)) ''source_file'' (MStr ''unknown'')) @
               '', page '' @ py_str (dict_get (metadata (ldocs ! i)) ''page'' (MStr ''N/A'')) @
               '']'' @ [CHR 0x0A] @ py_strip (page_content (ldocs ! i))"
    by (simp add: context_part_def Let_def add.commute)
  ultimately show "\<exists>parts. length parts = length ldocs
         \<and> format_retrieved_context ldocs
              = py_join ([CHR 0x0A, CHR 0x0A] @ ''---'' @ [CHR 0x0A, CHR 0x0A]) parts
         \<and> (\<forall>i<length ldocs. parts ! i =
               ''[Source '' @ string_of_int (int i + 1) @ '': '' @
               py_str (dict_get (metadata (ldocs ! i)) ''source_file'' (MStr ''unknown'')) @
               '', page '' @ py_str (dict_get (metadata (ldocs ! i)) ''page'' (MStr ''N/A'')) @
               '']'' @ [CHR 0x0A] @ py_strip (page_content (ldocs ! i)))"
    by (intro exI [of _ ?parts] conjI) assumption+
qed

theorem format_context_blocks_witness:
  "format_context (\<lambda>v. [])
     [[''metadata'' \<mapsto> PDict [''source_file'' \<mapsto> MStr ''a.pdf'', ''page'' \<mapsto> MInt 1],
       ''content'' \<mapsto> PStr ''X'', ''score'' \<mapsto> PFloat (Finite (13 / 16))],
      [''metadata'' \<mapsto> PDict [''source_file'' \<mapsto> MStr ''b.pdf'', ''page'' \<mapsto> MInt 2],
       ''content'' \<mapsto> PStr ''Y'', ''score'' \<mapsto> PFloat NegZero]]
     = Inr (''[Document 1] (Source: a.pdf, Page: 1, Score: 0.812)'' @ [CHR 0x0A] @ ''X'' @ [CHR 0x0A]
            @ [CHR 0x0A] @
            ''[Document 2] (Source: b.pdf, Page: 2, Score: -0.000)'' @ [CHR 0x0A] @ ''Y'' @ [CHR 0x0A])
   \<and> format_retrieved_context
     [\<lparr>metadata = [''source_file'' \<mapsto> MStr ''a.pdf'', ''page'' \<mapsto> MInt 1],
        page_content = '' X ''\<rparr>,
      \<lparr>metadata = [''source_file'' \<mapsto> MStr ''b.pdf''], page_content = ''Y''\<rparr>]
     = ''[Source 1: a.pdf, page 1]'' @ [CHR 0x0A] @ ''X''
       @ [CHR 0x0A, CHR 0x0A] @ ''---'' @ [CHR 0x0A, CHR 0x0A] @
       ''[Source 2: b.pdf, page N/A]'' @ [CHR 0x0A] @ ''Y''"
proof -
  define d0 :: "string \<rightharpoonup> pyval" where
    "d0 = [''metadata'' \<mapsto> PDict [''source_file'' \<mapsto> MStr ''a.pdf'', ''page'' \<mapsto> MInt 1],
       ''content'' \<mapsto> PStr ''X'', ''score'' \<mapsto> PFloat (Finite (13 / 16))]"
  define d1 :: "string \<rightharpoonup> pyval" where
    "d1 = [''metadata'' \<mapsto> PDict [''source_file'' \<mapsto> MStr ''b.pdf'', ''page'' \<mapsto> MInt 2],
       ''content'' \<mapsto> PStr ''Y'', ''score'' \<mapsto> PFloat NegZero]"
  define l0 :: document where
    "l0 = \<lparr>metadata = [''source_file'' \<mapsto> MStr ''a.pdf'', ''page'' \<mapsto> MInt 1],
        page_content = '' X ''\<rparr>"
  define l1 :: document where
    "l1 = \<lparr>metadata = [''source_file'' \<mapsto> MStr ''b.pdf''], page_content = ''Y''\<rparr>"
  have one: "string_of_int 1 = ''1''" by code_simp
  have two: "string_of_int 2 = ''2''" by code_simp
  have sc: "fmt_3f (Finite (13 / 16)) = ''0.812''" by code_simp
  have st0: "py_strip '' X '' = ''X''" by code_simp
  have st1: "py_strip ''Y'' = ''Y''" by code_simp
  note th = format_context_blocks [of "[d0, d1]" "\<lambda>v. []" 0 "[l0, l1]"]
  have ok: "[d0, d1] \<noteq> [] \<and> (\<forall>d \<in> set [d0, d1]. formattable d)"
    by (simp add: d0_def d1_def formattable_def)
  have ne: "[l0, l1] \<noteq> []" by simp
  from th ok obtain blocks where
    b1: "length blocks = length [d0, d1]" and
    b2: "format_context (\<lambda>v. []) [d0, d1] = Inr (py_join [CHR 0x0A] blocks)" and
    b3: "\<forall>i<length [d0, d1]. \<exists>md c x.
               ([d0, d1] ! i) ''metadata'' = Some (PDict md) \<and> ([d0, d1] ! i) ''content'' = Some c
             \<and> dict_get ([d0, d1] ! i) ''score'' (PFloat (Finite 0)) = PFloat x
             \<and> blocks ! i =
                 ''[Document '' @ string_of_int (int i + 1) @ ''] (Source: '' @
                 py_str (dict_get md ''source_file'' (MStr ''unknown'')) @
                 '', Page: '' @ py_str (dict_get md ''page'' (MStr ''?'')) @
                 '', Score: '' @ fmt_3f x @
                 '')'' @ [CHR 0x0A] @ py_str_val (\<lambda>v. []) c @ [CHR 0x0A]"
    by blast
  from th ne obtain parts where
    p1: "length parts = length [l0, l1]" and
    p2: "format_retrieved_context [l0, l1]
          = py_join ([CHR 0x0A, CHR 0x0A] @ ''---'' @ [CHR 0x0A, CHR 0x0A]) parts" and
    p3: "\<forall>i<length [l0, l1]. parts ! i =
               ''[Source '' @ string_of_int (int i + 1) @ '': '' @
               py_str (dict_get (metadata ([l0, l1] ! i)) ''source_file'' (MStr ''unknown'')) @
               '', page '' @ py_str (dict_get (metadata ([l0, l1] ! i)) ''page'' (MStr ''N/A'')) @
               '']'' @ [CHR 0x0A] @ py_strip (page_content ([l0, l1] ! i))"
    by blast
  have i0: "0 < length [d0, d1]" and i1: "1 < length [d0, d1]" by simp_all
  have j0: "0 < length [l0, l1]" and j1: "1 < length [l0, l1]" by simp_all
  have e0: "blocks ! 0
      = ''[Document 1] (Source: a.pdf, Page: 1, Score: 0.812)'' @ [CHR 0x0A] @ ''X'' @ [CHR 0x0A]"
  proof -
    from b3 [rule_format, OF i0] obtain md c x where
      m: "([d0, d1] ! 0) ''metadata'' = Some (PDict md)" and
      c: "([d0, d1] ! 0) ''content'' = Some c" and
      x: "dict_get ([d0, d1] ! 0) ''score'' (PFloat (Finite 0)) = PFloat x" and
      b: "blocks ! 0 =
                 ''[Document '' @ string_of_int (int 0 + 1) @ ''] (Source: '' @
                 py_str (dict_get md ''source_file'' (MStr ''unknown'')) @
                 '', Page: '' @ py_str (dict_get md ''page'' (MStr ''?'')) @
                 '', Score: '' @ fmt_3f x @
                 '')'' @ [CHR 0x0A] @ py_str_val (\<lambda>v. []) c @ [CHR 0x0A]"
      by blast
    have md: "md = [''source_file'' \<mapsto> MStr ''a.pdf'', ''page'' \<mapsto> MInt 1]"
      using m by (simp add: d0_def)
    have cv: "c = PStr ''X''" using c by (simp add: d0_def)
    have xv: "x = Finite (13 / 16)" using x by (simp add: d0_def dict_get_def)
    show ?thesis unfolding b md cv xv by (simp add: dict_get_def one sc del: fmt_3f.simps(1))
  qed
  have e1: "blocks ! 1
      = ''[Document 2] (Source: b.pdf, Page: 2, Score: -0.000)'' @ [CHR 0x0A] @ ''Y'' @ [CHR 0x0A]"
  proof -
    from b3 [rule_format, OF i1] obtain md c x where
      m: "([d0, d1] ! 1) ''metadata'' = Some (PDict md)" and
      c: "([d0, d1] ! 1) ''content'' = Some c" and
      x: "dict_get ([d0, d1] ! 1) ''score'' (PFloat (Finite 0)) = PFloat x" and
      b: "blocks ! 1 =
                 ''[Document '' @ string_of_int (int 1 + 1) @ ''] (Source: '' @
                 py_str (dict_get md ''source_file'' (MStr ''unknown'')) @
                 '', Page: '' @ py_str (dict_get md ''page'' (MStr ''?'')) @
                 '', Score: '' @ fmt_3f x @
                 '')'' @ [CHR 0x0A] @ py_str_val (\<lambda>v. []) c @ [CHR 0x0A]"
      by blast
    have md: "md = [''source_file'' \<mapsto> MStr ''b.pdf'', ''page'' \<mapsto> MInt 2]"
      using m by (simp add: d1_def)
    have cv: "c = PStr ''Y''" using c by (simp add: d1_def)
    have xv: "x = NegZero" using x by (simp add: d1_def dict_get_def)
    show ?thesis unfolding b md cv xv by (simp add: dict_get_def two)
  qed
  have f0: "parts ! 0 = ''[Source 1: a.pdf, page 1]'' @ [CHR 0x0A] @ ''X''"
    using p3 [rule_format, OF j0] by (simp add: l0_def dict_get_def one st0)
  have f1: "parts ! 1 = ''[Source 2: b.pdf, page N/A]'' @ [CHR 0x0A] @ ''Y''"
    using p3 [rule_format, OF j1] by (simp add: l1_def dict_get_def two st1)
  have "py_join [CHR 0x0A] blocks = blocks ! 0 @ [CHR 0x0A] @ blocks ! 1"
    using b1 by (rule py_join_pair)
  then have az: "format_context (\<lambda>v. []) [d0, d1]
     = Inr (''[Document 1] (Source: a.pdf, Page: 1, Score: 0.812)'' @ [CHR 0x0A] @ ''X'' @ [CHR 0x0A]
            @ [CHR 0x0A] @
            ''[Document 2] (Source: b.pdf, Page: 2, Score: -0.000)'' @ [CHR 0x0A] @ ''Y'' @ [CHR 0x0A])"
    unfolding b2 e0 e1 by simp
  have "py_join ([CHR 0x0A, CHR 0x0A] @ ''---'' @ [CHR 0x0A, CHR 0x0A]) parts
          = parts ! 0 @ ([CHR 0x0A, CHR 0x0A] @ ''---'' @ [CHR 0x0A, CHR 0x0A]) @ parts ! 1"
    using p1 by (rule py_join_pair)
  then have lc: "format_retrieved_context [l0, l1]
     = ''[Source 1: a.pdf, page 1]'' @ [CHR 0x0A] @ ''X''
       @ [CHR 0x0A, CHR 0x0A] @ ''---'' @ [CHR 0x0A, CHR 0x0A] @
       ''[Source 2: b.pdf, page N/A]'' @ [CHR 0x0A] @ ''Y''"
    unfolding p2 f0 f1 by simp
  show ?thesis using az lc unfolding d0_def d1_def l0_def l1_def by (rule conjI)
qed

text \<open>
  C8, as stated: the header of a block is followed by the chunk content trimmed of
  surrounding whitespace, and the header holds the score. \<open>format_context\<close> writes the
  content as it is: for the content \<open>" X "\<close> the header line is followed by \<open>" X "\<close>,
  not by \<open>"X"\<close>. \<open>format_retrieved_context\<close> trims the content, and its header holds
  no score.
\<close>

theorem format_context_keeps_whitespace:
  "format_context (\<lambda>v. [])
     [[''metadata'' \<mapsto> PDict [''source_file'' \<mapsto> MStr ''a.pdf'', ''page'' \<mapsto> MInt 1],
       ''content'' \<mapsto> PStr '' X '', ''score'' \<mapsto> PFloat (Finite (13 / 16))]]
     = Inr (''[Document 1] (Source: a.pdf, Page: 1, Score: 0.812)'' @ [CHR 0x0A] @ '' X '' @ [CHR 0x0A])
   \<and> py_strip '' X '' = ''X''
   \<and> \<not> prefix (''[Document 1] (Source: a.pdf, Page: 1, Score: 0.812)'' @ [CHR 0x0A] @ ''X'')
         (''[Document 1] (Source: a.pdf, Page: 1, Score: 0.812)'' @ [CHR 0x0A] @ '' X '' @ [CHR 0x0A])
   \<and> format_retrieved_context
     [\<lparr>metadata = [''source_file'' \<mapsto> MStr ''a.pdf'', ''page'' \<mapsto> MInt 1],
        page_content = '' X ''\<rparr>]
     = ''[Source 1: a.pdf, page 1]'' @ [CHR 0x0A] @ ''X''"
proof -
  have one: "string_of_int 1 = ''1''" by code_simp
  have sc: "fmt_3f (Finite (13 / 16)) = ''0.812''" by code_simp
  have st: "py_strip '' X '' = ''X''" by code_simp
  show ?thesis
    by (simp add: format_context_def format_retrieved_context_def context_block_def
        context_part_def dict_get_def one sc st del: fmt_3f.simps(1))
qed




section \<open>Coverage of the text by the chunks\<close>

lemma py_slice_nat:
  assumes "0 \<le> i" "i \<le> j"
  shows "py_slice xs i j = take (nat j - nat i) (drop (nat i) xs)"
proof (cases "nat i \<le> length xs")
  case True
  have "take (min (nat j) (length xs) - nat i) (drop (nat i) xs)
          = take (nat j - nat i) (drop (nat i) xs)"
  proof (cases "nat j \<le> length xs")
    case True
    then show ?thesis by (simp add: min_def)
  next
    case False
    then show ?thesis using \<open>nat i \<le> length xs\<close> by (simp add: min_def)
  qed
  then show ?thesis using assms True by (simp add: py_slice_def adjust_index_def min_def Let_def)
next
  case False
  then show ?thesis using assms by (simp add: py_slice_def adjust_index_def min_def Let_def)
qed

lemma drop_window:
  assumes "s + k \<le> e"
  shows "drop k (take (e - s) (drop s xs)) @ drop e xs = drop (s + k) xs"
proof -
  have "drop k (take (e - s) (drop s xs)) = take (e - s - k) (drop (s + k) xs)"
    by (simp add: drop_take add.commute)
  moreover have "drop e xs = drop (e - s - k) (drop (s + k) xs)"
    using assms by simp
  ultimately show ?thesis by (simp only: append_take_drop_id)
qed

lemma take_window:
  assumes "s + k \<le> e"
  shows "take k (take (e - s) (drop s xs)) = take k (drop s xs)"
  using assms by (simp add: min_def)

lemma append_chunk_filter:
  "append_chunk acc (py_strip p) = acc @ filter (\<lambda>c. c \<noteq> []) (map py_strip [p])"
  by (simp add: append_chunk_def)

lemma split_loop_pieces:
  assumes step: "\<And>s. 0 \<le> s \<Longrightarrow> s < int (length text) \<Longrightarrow>
                   s + 1 \<le> chunk_end self text s - chunk_overlap self"
    and ov: "0 \<le> chunk_overlap self"
  shows "0 \<le> start \<Longrightarrow> start < int (length text) \<Longrightarrow> int (length text) - start \<le> int n
      \<Longrightarrow> \<exists>pieces. pieces \<noteq> []
            \<and> split_loop n self text start acc
                 = Some (acc @ filter (\<lambda>c. c \<noteq> []) (map py_strip pieces))
            \<and> concat (map (drop (nat (chunk_overlap self))) pieces)
                 = drop (nat start + nat (chunk_overlap self)) text
            \<and> take (nat (chunk_overlap self)) (hd pieces)
                 = take (nat (chunk_overlap self)) (drop (nat start) text)"
proof (induction n arbitrary: start acc)
  case 0
  then show ?case by simp
next
  case (Suc n)
  define k where "k = nat (chunk_overlap self)"
  define e where "e = chunk_end self text start"
  define start' where "start' = e - chunk_overlap self"
  define p where "p = py_slice text start e"
  have adv: "start + 1 \<le> start'"
    unfolding start'_def e_def using step Suc.prems(1,2) by simp
  have se: "start \<le> e" using adv ov by (simp add: start'_def)
  have p_eq: "p = take (nat e - nat start) (drop (nat start) text)"
    unfolding p_def using Suc.prems(1) se by (rule py_slice_nat)
  have win: "nat start + k \<le> nat e"
    using adv ov Suc.prems(1) by (simp add: start'_def k_def)
  have glue: "drop k p @ drop (nat e) text = drop (nat start + k) text"
    unfolding p_eq using win by (rule drop_window)
  have front: "take k p = take k (drop (nat start) text)"
    unfolding p_eq using win by (rule take_window)
  have unfold: "split_loop (Suc n) self text start acc =
      (if start' \<ge> int (length text) then Some (append_chunk acc (py_strip p))
       else split_loop n self text start' (append_chunk acc (py_strip p)))"
    using Suc.prems(2) by (simp add: Let_def e_def start'_def p_def)
  show ?case
  proof (cases "start' \<ge> int (length text)")
    case True
    then have "int (length text) \<le> e" using ov by (simp add: start'_def)
    then have "drop (nat e) text = []" by simp
    then have "concat (map (drop k) [p]) = drop (nat start + k) text"
      using glue by simp
    moreover have "split_loop (Suc n) self text start acc
          = Some (acc @ filter (\<lambda>c. c \<noteq> []) (map py_strip [p]))"
      using True by (simp only: unfold append_chunk_filter if_True)
    moreover have "take k (hd [p]) = take k (drop (nat start) text)"
      using front by simp
    moreover have "[p] \<noteq> []" by simp
    ultimately show ?thesis unfolding k_def by blast
  next
    case False
    have "0 \<le> start'" using adv Suc.prems(1) by simp
    moreover have "start' < int (length text)" using False by simp
    moreover have "int (length text) - start' \<le> int n"
      using adv Suc.prems(3) by simp
    ultimately obtain pieces where
      ne: "pieces \<noteq> []" and
      run: "split_loop n self text start' (append_chunk acc (py_strip p))
              = Some (append_chunk acc (py_strip p) @ filter (\<lambda>c. c \<noteq> []) (map py_strip pieces))" and
      rest: "concat (map (drop k) pieces) = drop (nat start' + k) text"
      using Suc.IH [of start' "append_chunk acc (py_strip p)"] unfolding k_def by blast
    have "nat start' + k = nat e"
      using \<open>0 \<le> start'\<close> ov by (simp add: start'_def k_def)
    then have "concat (map (drop k) (p # pieces)) = drop (nat start + k) text"
      using rest glue by simp
    moreover have "split_loop (Suc n) self text start acc
          = Some (acc @ filter (\<lambda>c. c \<noteq> []) (map py_strip (p # pieces)))"
    proof -
      have "split_loop (Suc n) self text start acc
              = split_loop n self text start' (append_chunk acc (py_strip p))"
        using False by (simp only: unfold if_False)
      also have "\<dots> = Some (append_chunk acc (py_strip p)
                              @ filter (\<lambda>c. c \<noteq> []) (map py_strip pieces))"
        by (rule run)
      also have "append_chunk acc (py_strip p) @ filter (\<lambda>c. c \<noteq> []) (map py_strip pieces)
                   = acc @ filter (\<lambda>c. c \<noteq> []) (map py_strip (p # pieces))"
        by (simp add: append_chunk_def)
      finally show ?thesis .
    qed
    moreover have "take k (hd (p # pieces)) = take k (drop (nat start) text)"
      using front by simp
    moreover have "p # pieces \<noteq> []" by simp
    ultimately show ?thesis unfolding k_def by blast
  qed
qed

text \<open>
  Where the cursor moves forward at every iteration (no period and no newline in the
  text, or an overlap of at most one character), the chunks do cover the text: they
  are the non-empty trimmed forms of consecutive windows of the text, and the first
  window followed by the later windows without their first \<open>chunk_overlap\<close> characters
  is the text.
\<close>

lemma split_text_covers_text:
  assumes cfg: "0 < chunk_size self" "0 \<le> chunk_overlap self"
      "chunk_overlap self < chunk_size self"
    and long: "chunk_size self < int (length text)"
    and regime: "(CHR ''.'' \<notin> set text \<and> CHR 0x0A \<notin> set text) \<or> chunk_overlap self \<le> 1"
  shows "\<exists>pieces. pieces \<noteq> []
     \<and> split_text (length text) self text
          = Some (filter (\<lambda>c. c \<noteq> []) (map py_strip pieces))
     \<and> hd pieces @ concat (map (drop (nat (chunk_overlap self))) (tl pieces)) = text"
proof -
  define k where "k = nat (chunk_overlap self)"
  have step: "s + 1 \<le> chunk_end self text s - chunk_overlap self" if "0 \<le> s" for s
    using regime
  proof
    assume "CHR ''.'' \<notin> set text \<and> CHR 0x0A \<notin> set text"
    then have "chunk_end self text s = s + chunk_size self"
      using that by (simp add: chunk_end_no_delimiter)
    then show ?thesis using cfg by simp
  next
    assume "chunk_overlap self \<le> 1"
    moreover have "s + min 2 (chunk_size self) \<le> chunk_end self text s"
      by (rule chunk_end_progress)
    ultimately show ?thesis using cfg by simp
  qed
  have pos: "(0::int) < int (length text)" using cfg(1) long by linarith
  obtain pieces where
    ne: "pieces \<noteq> []" and
    run: "split_loop (length text) self text 0 []
            = Some ([] @ filter (\<lambda>c. c \<noteq> []) (map py_strip pieces))" and
    rest: "concat (map (drop k) pieces) = drop (nat 0 + k) text" and
    front: "take k (hd pieces) = take k (drop (nat 0) text)"
    using split_loop_pieces [of "text" self 0 "length text" "[]"] step cfg(2) pos
    unfolding k_def by auto
  have "split_text (length text) self text
          = Some (filter (\<lambda>c. c \<noteq> []) (map py_strip pieces))"
    using long run by (simp add: split_text_def)
  moreover have "hd pieces @ concat (map (drop k) (tl pieces)) = text"
  proof -
    obtain p ps where pieces: "pieces = p # ps" using ne by (cases pieces) auto
    have "p @ concat (map (drop k) ps) = take k p @ drop k p @ concat (map (drop k) ps)"
      by simp
    also have "\<dots> = take k text @ drop k text"
      using rest front by (simp add: pieces)
    finally show ?thesis by (simp add: pieces)
  qed
  ultimately show ?thesis using ne unfolding k_def by blast
qed

end

